theory Spec2Isabelle
  imports Main
begin

section \<open>Strings and the standard-library functions the repository calls\<close>

text \<open>
  A Go string is a sequence of bytes and \<open>len\<close> counts bytes, so keys are modelled as
  \<open>string\<close> (lists of 8-bit characters). The functions below follow the Go standard
  library: \<open>strings.HasPrefix\<close>, \<open>strings.Index\<close>, \<open>strings.Split\<close>,
  \<open>strings.Join\<close>.
\<close>

definition HasPrefix :: "string \<Rightarrow> string \<Rightarrow> bool" where
  "HasPrefix s p = (length s \<ge> length p \<and> take (length p) s = p)"

text \<open>\<open>strings.Index\<close>: position of the first occurrence, \<open>None\<close> for \<open>-1\<close>.\<close>

fun Index :: "string \<Rightarrow> string \<Rightarrow> nat option" where
  "Index [] substr = (if substr = [] then Some 0 else None)"
| "Index (c # cs) substr =
     (if HasPrefix (c # cs) substr then Some 0 else map_option Suc (Index cs substr))"

text \<open>
  \<open>strings.Split(s, sep)\<close>. With an empty separator Go explodes the string into its
  UTF-8 sequences; the repository only splits strings that have passed the character
  check, which are ASCII, so one element per byte is what Go returns there.
  Otherwise the string is cut at the leftmost occurrence of the separator, repeatedly.
\<close>

definition explode :: "string \<Rightarrow> string list" where
  "explode s = map (\<lambda>c. [c]) s"

function Split :: "string \<Rightarrow> string \<Rightarrow> string list" where
  "Split s sep =
     (if sep = [] then explode s
      else case Index s sep of
             None \<Rightarrow> [s]
           | Some m \<Rightarrow> take m s # Split (drop (m + length sep) s) sep)"
  by pat_completeness auto
termination
proof (relation "measure (\<lambda>(s, sep). length s)", goal_cases)
  case 1
  show ?case by simp
next
  case (2 s sep m)
  have bound: "Index t sep = Some k \<Longrightarrow> k + length sep \<le> length t" for t k
  proof (induction t arbitrary: k)
    case Nil
    then show ?case by (simp split: if_splits)
  next
    case (Cons c cs)
    show ?case
    proof (cases "HasPrefix (c # cs) sep")
      case True
      with Cons.prems show ?thesis by (simp add: HasPrefix_def)
    next
      case False
      with Cons.prems obtain j where "Index cs sep = Some j" "k = Suc j" by auto
      with Cons.IH show ?thesis by fastforce
    qed
  qed
  from 2(2) have "m + length sep \<le> length s"
    by (rule bound)
  moreover from 2(1) obtain n where "length sep = Suc n"
    by (cases sep) auto
  ultimately show ?case
    by simp
qed

declare Split.simps [simp del]

fun Join :: "string list \<Rightarrow> string \<Rightarrow> string" where
  "Join [] sep = []"
| "Join [x] sep = x"
| "Join (x # y # ys) sep = x @ sep @ Join (y # ys) sep"

section \<open>Regular expressions\<close>

text \<open>
  The two patterns of the source are anchored sequences of character classes, each with
  a quantifier. A class is a list of ranges and single characters; bytes are compared by
  their code. \<open>MatchString\<close> decides whether the whole string matches.
\<close>

datatype class_item = Range char char | Lit char

datatype quantifier = Once | ZeroOrMore | OneOrMore

type_synonym regexp = "(class_item list \<times> quantifier) list"

fun in_item :: "class_item \<Rightarrow> char \<Rightarrow> bool" where
  "in_item (Range lo hi) c = ((of_char lo :: nat) \<le> of_char c \<and> (of_char c :: nat) \<le> of_char hi)"
| "in_item (Lit x) c = (c = x)"

definition in_class :: "class_item list \<Rightarrow> char \<Rightarrow> bool" where
  "in_class items c = list_ex (\<lambda>i. in_item i c) items"

fun MatchString :: "regexp \<Rightarrow> string \<Rightarrow> bool" where
  "MatchString [] s = (s = [])"
| "MatchString ((cls, Once) # rs) [] = False"
| "MatchString ((cls, Once) # rs) (c # cs) = (in_class cls c \<and> MatchString rs cs)"
| "MatchString ((cls, ZeroOrMore) # rs) [] = MatchString rs []"
| "MatchString ((cls, ZeroOrMore) # rs) (c # cs) =
     (MatchString rs (c # cs) \<or> (in_class cls c \<and> MatchString ((cls, ZeroOrMore) # rs) cs))"
| "MatchString ((cls, OneOrMore) # rs) [] = False"
| "MatchString ((cls, OneOrMore) # rs) (c # cs) =
     (in_class cls c \<and> MatchString ((cls, ZeroOrMore) # rs) cs)"

text \<open>\<^verbatim>\<open>^[a-zA-Z0-9_:.-]+$\<close> and \<^verbatim>\<open>^[a-zA-Z][a-zA-Z0-9_]*$\<close>.\<close>

definition validKeyRegex :: regexp where
  "validKeyRegex =
     [([Range CHR ''a'' CHR ''z'', Range CHR ''A'' CHR ''Z'', Range CHR ''0'' CHR ''9'',
        Lit CHR ''_'', Lit CHR '':'', Lit CHR ''.'', Lit CHR ''-''], OneOrMore)]"

definition entityPrefixRegex :: regexp where
  "entityPrefixRegex =
     [([Range CHR ''a'' CHR ''z'', Range CHR ''A'' CHR ''Z''], Once),
      ([Range CHR ''a'' CHR ''z'', Range CHR ''A'' CHR ''Z'', Range CHR ''0'' CHR ''9'',
        Lit CHR ''_''], ZeroOrMore)]"

section \<open>Constants, errors and the repository handle\<close>

definition DefaultKeyPrefix :: string where "DefaultKeyPrefix = ''app''"
definition DefaultKeySeparator :: string where "DefaultKeySeparator = '':''"
definition MinKeyLength :: nat where "MinKeyLength = 5"
definition MaxKeyLength :: nat where "MaxKeyLength = 256"
definition KeyPartLock :: string where "KeyPartLock = ''lock''"

text \<open>
  The error values declared in the file. A key error is either one of them as it is, or
  one wrapped by \<open>fmt.Errorf("%w: ...")\<close>, which keeps the wrapped value for
  \<open>errors.Is\<close> and appends a text.
\<close>

datatype key_sentinel =
    ErrEmptyKeyPart | ErrInvalidKeyFormat | ErrInvalidKeyLength | ErrInvalidKeyPrefix
  | ErrInvalidKeySuffix | ErrInvalidKeyChars | ErrInvalidEntityPrefix | ErrUnsupportedIdentifier

datatype key_error = Bare key_sentinel | Wrapping key_sentinel string

fun kind :: "key_error \<Rightarrow> key_sentinel" where
  "kind (Bare s) = s"
| "kind (Wrapping s txt) = s"

fun sentinel_text :: "key_sentinel \<Rightarrow> string" where
  "sentinel_text ErrEmptyKeyPart = ''empty key part used but not allowed''"
| "sentinel_text ErrInvalidKeyFormat = ''invalid key format''"
| "sentinel_text ErrInvalidKeyLength = ''key length out of allowed range''"
| "sentinel_text ErrInvalidKeyPrefix = ''key does not start with the correct prefix''"
| "sentinel_text ErrInvalidKeySuffix = ''key does not have at least one part after prefix''"
| "sentinel_text ErrInvalidKeyChars = ''key contains invalid characters''"
| "sentinel_text ErrInvalidEntityPrefix =
     ''invalid entity prefix: must start with a letter and contain only letters, numbers, and underscores''"
| "sentinel_text ErrUnsupportedIdentifier = ''unsupported identifier type''"

text \<open>The \<open>Error()\<close> text of a key error.\<close>

fun key_error_text :: "key_error \<Rightarrow> string" where
  "key_error_text (Bare s) = sentinel_text s"
| "key_error_text (Wrapping s txt) = sentinel_text s @ '': '' @ txt"

record RedisConfig =
  KeyPrefix :: string
  KeySeparator :: string

record RedisRepository =
  prefix :: string
  separator :: string

text \<open>\<open>NewRedisRepository\<close>: the part that fixes prefix and separator.\<close>

definition NewRedisRepository :: "RedisConfig \<Rightarrow> RedisRepository" where
  "NewRedisRepository config =
     \<lparr> prefix = (if KeyPrefix config = [] then DefaultKeyPrefix else KeyPrefix config),
       separator = (if KeySeparator config = [] then DefaultKeySeparator else KeySeparator config) \<rparr>"

section \<open>Key validation and the identifier codec\<close>

text \<open>The loop over the parts at the end of \<open>validateKey\<close>.\<close>

fun scanParts :: "string list \<Rightarrow> key_error option" where
  "scanParts [] = None"
| "scanParts (part # rest) = (if part = [] then Some (Bare ErrEmptyKeyPart) else scanParts rest)"

definition validateKey :: "RedisRepository \<Rightarrow> string \<Rightarrow> key_error option" where
  "validateKey r key =
     (if length key < MinKeyLength \<or> length key > MaxKeyLength then
        Some (Wrapping ErrInvalidKeyLength ''key length must be between 5 and 256 characters'')
      else if \<not> MatchString validKeyRegex key then
        Some (Wrapping ErrInvalidKeyChars
          ''key must contain only alphanumeric characters, underscores, colons, dots, and hyphens'')
      else if \<not> HasPrefix key (prefix r @ separator r) then
        Some (Wrapping ErrInvalidKeyPrefix (''key must start with '' @ prefix r @ separator r))
      else
        let parts = Split key (separator r) in
        if length parts < 2 \<or> parts ! 1 = [] then
          Some (Wrapping ErrInvalidKeySuffix
            ''key must have at least one non-empty part after the prefix'')
        else scanParts parts)"

definition validateEntityPrefix :: "string \<Rightarrow> key_error option" where
  "validateEntityPrefix entityPrefix =
     (if \<not> MatchString entityPrefixRegex entityPrefix then Some (Bare ErrInvalidEntityPrefix)
      else None)"

definition createKey :: "RedisRepository \<Rightarrow> string list \<Rightarrow> key_error + string" where
  "createKey r parts =
     (let allParts = prefix r # parts;
          key = Join allParts (separator r)
      in case validateKey r key of Some err \<Rightarrow> Inl err | None \<Rightarrow> Inr key)"

text \<open>
  \<open>parseKey\<close> returns \<open>strings.Split(key, sep)[1:]\<close>. The slice expression would panic
  on an empty slice; after validation the split has at least two elements
  (lemma \<open>validateKey_parts\<close> below), so the tail is what Go returns.
\<close>

definition parseKey :: "RedisRepository \<Rightarrow> string \<Rightarrow> key_error + string list" where
  "parseKey r key =
     (case validateKey r key of
        Some err \<Rightarrow> Inl err
      | None \<Rightarrow> Inr (tl (Split key (separator r))))"

text \<open>
  The identifier interface: the two variants the codec knows, and any other
  implementation of the interface (also \<open>nil\<close>), which takes the default branch.
\<close>

datatype EntityIdentifier =
    RedisIdentifier (EntityPrefix: string) (ID: string)
  | SimpleIdentifier string
  | OtherIdentifier

definition identifierToKey :: "RedisRepository \<Rightarrow> EntityIdentifier \<Rightarrow> key_error + string" where
  "identifierToKey r identifier =
     (case identifier of
        RedisIdentifier ep i \<Rightarrow>
          (case validateEntityPrefix ep of
             Some err \<Rightarrow> Inl err
           | None \<Rightarrow> createKey r [ep, i])
      | SimpleIdentifier i \<Rightarrow> createKey r [i]
      | OtherIdentifier \<Rightarrow> Inl (Bare ErrUnsupportedIdentifier))"

definition keyToIdentifier :: "RedisRepository \<Rightarrow> string \<Rightarrow> key_error + EntityIdentifier" where
  "keyToIdentifier r key =
     (case parseKey r key of
        Inl err \<Rightarrow> Inl err
      | Inr parts \<Rightarrow>
          if length parts \<ge> 2 then Inr (RedisIdentifier (parts ! 0) (parts ! 1))
          else Inr (SimpleIdentifier (Join parts (separator r))))"


text \<open>
  The body shared by the loops of \<open>List\<close> and \<open>Search\<close>: validate the key, convert
  it, append the identifier; either failure skips the key.
\<close>

datatype step = SkipInvalidKey | SkipNotConvertible | Append EntityIdentifier

definition loop_body :: "RedisRepository \<Rightarrow> string \<Rightarrow> step" where
  "loop_body r key =
     (case validateKey r key of
        Some err \<Rightarrow> SkipInvalidKey
      | None \<Rightarrow>
          (case keyToIdentifier r key of
             Inl err \<Rightarrow> SkipNotConvertible
           | Inr identifier \<Rightarrow> Append identifier))"

text \<open>
  The decoding as the specification words it: validate, strip the configured prefix
  (with its separator), split the remainder on the separator, and build a composite
  identifier from the first two parts if there are two or more, otherwise a simple
  identifier from the remaining part.
\<close>

definition fromKey_spec :: "RedisRepository \<Rightarrow> string \<Rightarrow> key_error + EntityIdentifier" where
  "fromKey_spec r key =
     (case validateKey r key of
        Some err \<Rightarrow> Inl err
      | None \<Rightarrow>
          let remainder = drop (length (prefix r @ separator r)) key;
              parts = Split remainder (separator r)
          in if length parts \<ge> 2 then Inr (RedisIdentifier (parts ! 0) (parts ! 1))
             else Inr (SimpleIdentifier (Join parts (separator r))))"

text \<open>The strings an identifier is made of.\<close>

fun identifier_parts :: "EntityIdentifier \<Rightarrow> string list" where
  "identifier_parts (RedisIdentifier ep i) = [ep, i]"
| "identifier_parts (SimpleIdentifier i) = [i]"
| "identifier_parts OtherIdentifier = []"

text \<open>The characters the specification allows in a key.\<close>

definition key_chars :: "char set" where
  "key_chars = set ''abcdefghijklmnopqrstuvwxyzABCDEFGHIJKLMNOPQRSTUVWXYZ0123456789_:.-''"

section \<open>The store client\<close>

text \<open>
  The redis client is a library outside the repository; it is a parameter of the model:
  a record of the primitives the repository calls, each a function of the backend state
  \<open>'s\<close> that returns its reply and the new state. A cancelled context or a network
  failure is one of the errors a primitive may return. \<open>redis.Nil\<close> is the client's
  "no such key" value; every other error is known by its text.
\<close>

datatype client_error = Nil | ClientFailure string

fun client_error_text :: "client_error \<Rightarrow> string" where
  "client_error_text Nil = ''redis: nil''"
| "client_error_text (ClientFailure txt) = txt"

datatype arg = AStr string | AInt int

text \<open>The dynamic type of a reply of \<open>Do\<close>: \<open>int64\<close>, \<open>string\<close>, \<open>[]interface{}\<close>, or another.\<close>

datatype reply = RInt int | RStr string | RArray "reply list" | ROther

record ('s, 'v) client =
  client_Exists :: "string \<Rightarrow> 's \<Rightarrow> (client_error + int) \<times> 's"
  client_JSONSet :: "string \<Rightarrow> string \<Rightarrow> 'v \<Rightarrow> 's \<Rightarrow> client_error option \<times> 's"
  client_JSONGet :: "string \<Rightarrow> string \<Rightarrow> 's \<Rightarrow> (client_error + string) \<times> 's"
  client_Del :: "string \<Rightarrow> 's \<Rightarrow> (client_error + int) \<times> 's"
  client_Keys :: "string \<Rightarrow> 's \<Rightarrow> (client_error + string list) \<times> 's"
  client_Do :: "arg list \<Rightarrow> 's \<Rightarrow> (client_error + reply) \<times> 's"
  client_SetNX :: "string \<Rightarrow> int \<Rightarrow> int \<Rightarrow> 's \<Rightarrow> (client_error + bool) \<times> 's"
  client_Publish :: "string \<Rightarrow> 'v \<Rightarrow> 's \<Rightarrow> client_error option \<times> 's"
  client_Ping :: "'s \<Rightarrow> client_error option \<times> 's"
  client_Close :: "'s \<Rightarrow> client_error option \<times> 's"

text \<open>A client that also records every command it is sent, in order.\<close>

datatype 'v command =
    CmdExists string | CmdJSONSet string string 'v | CmdJSONGet string string | CmdDel string
  | CmdKeys string | CmdDo "arg list" | CmdSetNX string int int | CmdPublish string 'v
  | CmdPing | CmdClose

definition record_call ::
  "'v command \<Rightarrow> ('s \<Rightarrow> 'a \<times> 's) \<Rightarrow> 's \<times> 'v command list \<Rightarrow> 'a \<times> ('s \<times> 'v command list)" where
  "record_call cmd f st =
     (case st of (s, trace) \<Rightarrow> (case f s of (res, s') \<Rightarrow> (res, (s', trace @ [cmd]))))"

definition logged :: "('s, 'v) client \<Rightarrow> ('s \<times> 'v command list, 'v) client" where
  "logged c =
     \<lparr> client_Exists = (\<lambda>key. record_call (CmdExists key) (client_Exists c key)),
       client_JSONSet = (\<lambda>key path v. record_call (CmdJSONSet key path v) (client_JSONSet c key path v)),
       client_JSONGet = (\<lambda>key path. record_call (CmdJSONGet key path) (client_JSONGet c key path)),
       client_Del = (\<lambda>key. record_call (CmdDel key) (client_Del c key)),
       client_Keys = (\<lambda>pat. record_call (CmdKeys pat) (client_Keys c pat)),
       client_Do = (\<lambda>args. record_call (CmdDo args) (client_Do c args)),
       client_SetNX = (\<lambda>key v ttl. record_call (CmdSetNX key v ttl) (client_SetNX c key v ttl)),
       client_Publish = (\<lambda>ch m. record_call (CmdPublish ch m) (client_Publish c ch m)),
       client_Ping = record_call CmdPing (client_Ping c),
       client_Close = record_call CmdClose (client_Close c) \<rparr>"

text \<open>
  Two clients to run the operations on. \<open>store_client\<close> keeps documents in a map and
  answers key enumeration and search with fixed replies; \<open>failing_client\<close> answers
  every call with the same error.
\<close>

definition store_client ::
  "('v \<Rightarrow> string) \<Rightarrow> string list \<Rightarrow> reply \<Rightarrow> (string \<rightharpoonup> 'v, 'v) client" where
  "store_client encode keys found =
     \<lparr> client_Exists = (\<lambda>key s. (Inr (if s key = None then 0 else 1), s)),
       client_JSONSet = (\<lambda>key path v s. (None, s(key \<mapsto> v))),
       client_JSONGet = (\<lambda>key path s. (case s key of None \<Rightarrow> Inl Nil | Some v \<Rightarrow> Inr (encode v), s)),
       client_Del = (\<lambda>key s. (Inr (if s key = None then 0 else 1), s(key := None))),
       client_Keys = (\<lambda>pat s. (Inr keys, s)),
       client_Do = (\<lambda>args s. (Inr found, s)),
       client_SetNX = (\<lambda>key v ttl s. (Inr True, s)),
       client_Publish = (\<lambda>ch m s. (None, s)),
       client_Ping = (\<lambda>s. (None, s)),
       client_Close = (\<lambda>s. (None, s)) \<rparr>"

definition failing_client :: "client_error \<Rightarrow> (unit, 'v) client" where
  "failing_client e =
     \<lparr> client_Exists = (\<lambda>key s. (Inl e, s)),
       client_JSONSet = (\<lambda>key path v s. (Some e, s)),
       client_JSONGet = (\<lambda>key path s. (Inl e, s)),
       client_Del = (\<lambda>key s. (Inl e, s)),
       client_Keys = (\<lambda>pat s. (Inl e, s)),
       client_Do = (\<lambda>args s. (Inl e, s)),
       client_SetNX = (\<lambda>key v ttl s. (Inl e, s)),
       client_Publish = (\<lambda>ch m s. (Some e, s)),
       client_Ping = (\<lambda>s. (Some e, s)),
       client_Close = (\<lambda>s. (Some e, s)) \<rparr>"

section \<open>Repository operations\<close>

text \<open>
  \<open>ErrInvalidIdentifier\<close>, \<open>ErrOperationFailed\<close>, \<open>ErrAlreadyExists\<close> and \<open>ErrNotFound\<close>
  are declared in another file of the package; only their identity is used here.
  An operation returns one of them as it is, or wrapped by
  \<open>fmt.Errorf("%w: %v", sentinel, err)\<close>: the result unwraps to the sentinel and its
  text ends with the text of \<open>err\<close>, which is what \<open>Errorf_w\<close> keeps. \<open>Errorf\<close> is
  a fresh error with a text only. An error of the client or of \<open>json.Unmarshal\<close> that
  is returned as it came is \<open>FromClient\<close> or \<open>FromJSON\<close>.
\<close>

datatype repo_sentinel = ErrInvalidIdentifier | ErrOperationFailed | ErrAlreadyExists | ErrNotFound

datatype error =
    Sentinel repo_sentinel
  | Errorf_w repo_sentinel string
  | Errorf string
  | FromClient client_error
  | FromJSON string


definition invalid_identifier :: "key_error \<Rightarrow> error" where
  "invalid_identifier err = Errorf_w ErrInvalidIdentifier (key_error_text err)"

definition operation_failed :: "client_error \<Rightarrow> error" where
  "operation_failed err = Errorf_w ErrOperationFailed (client_error_text err)"

definition Create ::
  "RedisRepository \<Rightarrow> ('s, 'v) client \<Rightarrow> EntityIdentifier \<Rightarrow> 'v \<Rightarrow> 's \<Rightarrow> error option \<times> 's" where
  "Create r c identifier v s =
     (case identifierToKey r identifier of
        Inl err \<Rightarrow> (Some (invalid_identifier err), s)
      | Inr key \<Rightarrow>
          (case client_Exists c key s of
             (Inl err, s') \<Rightarrow> (Some (operation_failed err), s')
           | (Inr exists, s') \<Rightarrow>
               if exists = 1 then (Some (Sentinel ErrAlreadyExists), s')
               else (case client_JSONSet c key ''$'' v s' of
                       (res, s'') \<Rightarrow> (map_option FromClient res, s''))))"


definition Update ::
  "RedisRepository \<Rightarrow> ('s, 'v) client \<Rightarrow> EntityIdentifier \<Rightarrow> 'v \<Rightarrow> 's \<Rightarrow> error option \<times> 's" where
  "Update r c identifier v s =
     (case identifierToKey r identifier of
        Inl err \<Rightarrow> (Some (invalid_identifier err), s)
      | Inr key \<Rightarrow>
          (case client_Exists c key s of
             (Inl err, s') \<Rightarrow> (Some (operation_failed err), s')
           | (Inr exists, s') \<Rightarrow>
               if exists = 0 then (Some (Sentinel ErrNotFound), s')
               else (case client_JSONSet c key ''$'' v s' of
                       (res, s'') \<Rightarrow> (map_option FromClient res, s''))))"




text \<open>
  The loop of \<open>Search\<close>: \<open>for i := 1; i < len(array); i += 2\<close>. An element that is
  not a string is skipped.
\<close>

function search_loop ::
  "RedisRepository \<Rightarrow> reply list \<Rightarrow> nat \<Rightarrow> EntityIdentifier list \<Rightarrow> EntityIdentifier list" where
  "search_loop r array i identifiers =
     (if i < length array then
        (case array ! i of
           RStr key \<Rightarrow>
             (case loop_body r key of
                Append identifier \<Rightarrow> search_loop r array (i + 2) (identifiers @ [identifier])
              | SkipInvalidKey \<Rightarrow> search_loop r array (i + 2) identifiers
              | SkipNotConvertible \<Rightarrow> search_loop r array (i + 2) identifiers)
         | RInt n \<Rightarrow> search_loop r array (i + 2) identifiers
         | RArray xs \<Rightarrow> search_loop r array (i + 2) identifiers
         | ROther \<Rightarrow> search_loop r array (i + 2) identifiers)
      else identifiers)"
  by pat_completeness auto
termination
  by (relation "measure (\<lambda>(r, array, i, identifiers). length array - i)") auto

declare search_loop.simps [simp del]

text \<open>
  \<open>Search\<close> may panic: \<open>make([]EntityIdentifier, 0, totalResults)\<close> panics when the
  capacity is negative or larger than the runtime allocates. That largest capacity
  depends on the platform and is the parameter \<open>max_cap\<close>.
\<close>

datatype 'a outcome = Returns 'a | Panics

definition search_args :: "RedisRepository \<Rightarrow> string \<Rightarrow> int \<Rightarrow> int \<Rightarrow> string \<Rightarrow> string \<Rightarrow> arg list" where
  "search_args r query offset limit sortBy sortDir =
     [AStr ''FT.SEARCH'', AStr (prefix r), AStr query,
      AStr ''LIMIT'', AInt offset, AInt limit,
      AStr ''SORTBY'', AStr sortBy, AStr sortDir]"

definition Search ::
  "RedisRepository \<Rightarrow> ('s, 'v) client \<Rightarrow> int \<Rightarrow> string \<Rightarrow> int \<Rightarrow> int \<Rightarrow> string \<Rightarrow> string \<Rightarrow> 's
     \<Rightarrow> (error + EntityIdentifier list) outcome \<times> 's" where
  "Search r c max_cap query offset limit sortBy sortDir s =
     (case client_Do c (search_args r query offset limit sortBy sortDir) s of
        (Inl err, s') \<Rightarrow> (Returns (Inl (operation_failed err)), s')
      | (Inr res, s') \<Rightarrow>
          (case res of
             RArray array \<Rightarrow>
               if length array < 1 then
                 (Returns (Inl (Errorf ''unexpected search result format'')), s')
               else
                 (case array ! 0 of
                    RInt totalResults \<Rightarrow>
                      if totalResults = 0 then (Returns (Inr []), s')
                      else if totalResults < 0 \<or> totalResults > max_cap then (Panics, s')
                      else (Returns (Inr (search_loop r array 1 [])), s')
                  | RStr x \<Rightarrow> (Returns (Inl (Errorf ''unexpected total results format'')), s')
                  | RArray xs \<Rightarrow> (Returns (Inl (Errorf ''unexpected total results format'')), s')
                  | ROther \<Rightarrow> (Returns (Inl (Errorf ''unexpected total results format'')), s'))
           | RInt n \<Rightarrow> (Returns (Inl (Errorf ''unexpected search result format'')), s')
           | RStr x \<Rightarrow> (Returns (Inl (Errorf ''unexpected search result format'')), s')
           | ROther \<Rightarrow> (Returns (Inl (Errorf ''unexpected search result format'')), s')))"

text \<open>The key of the lock of an entity, as both lock operations build it.\<close>

definition lockKey :: "RedisRepository \<Rightarrow> string \<Rightarrow> string" where
  "lockKey r key = key @ separator r @ KeyPartLock"

definition AcquireLock ::
  "RedisRepository \<Rightarrow> ('s, 'v) client \<Rightarrow> EntityIdentifier \<Rightarrow> int \<Rightarrow> 's \<Rightarrow> (error + bool) \<times> 's" where
  "AcquireLock r c identifier ttl s =
     (case identifierToKey r identifier of
        Inl err \<Rightarrow> (Inl (invalid_identifier err), s)
      | Inr key \<Rightarrow>
          (case client_SetNX c (lockKey r key) 1 ttl s of
             (Inl err, s') \<Rightarrow> (Inl (operation_failed err), s')
           | (Inr acquired, s') \<Rightarrow> (Inr acquired, s')))"







section \<open>Notions of the specification about enumerations\<close>





section \<open>Facts about the regular expressions\<close>

lemma MatchString_star:
  "MatchString [(cls, ZeroOrMore)] s = (\<forall>c\<in>set s. in_class cls c)"
  by (induction s) auto

lemma MatchString_plus:
  "MatchString [(cls, OneOrMore)] s = (s \<noteq> [] \<and> (\<forall>c\<in>set s. in_class cls c))"
  by (cases s) (auto simp: MatchString_star)

lemma MatchString_once_star:
  "MatchString [(first, Once), (others, ZeroOrMore)] s =
     (\<exists>c cs. s = c # cs \<and> in_class first c \<and> (\<forall>x\<in>set cs. in_class others x))"
  by (cases s) (auto simp: MatchString_star)

lemma in_range_iff:
  assumes "map char_of [of_char lo ..< Suc (of_char hi :: nat)] = cs"
  shows "in_item (Range lo hi) c = (c \<in> set cs)"
proof
  assume "in_item (Range lo hi) c"
  then have "(of_char c :: nat) \<in> set [of_char lo ..< Suc (of_char hi)]"
    by auto
  then have "char_of (of_char c :: nat) \<in> char_of ` set [of_char lo ..< Suc (of_char hi :: nat)]"
    by (rule imageI)
  then have "c \<in> set (map char_of [of_char lo ..< Suc (of_char hi :: nat)])"
    by simp
  with assms show "c \<in> set cs"
    by simp
next
  assume "c \<in> set cs"
  with assms obtain n :: nat where n: "of_char lo \<le> n" "n \<le> of_char hi" "c = char_of n"
    by auto
  have "(of_char hi :: nat) mod 256 = of_char hi"
    by simp
  then have "(of_char hi :: nat) < 256"
    by (metis mod_less_divisor zero_less_numeral)
  with n have "n < 256"
    by linarith
  with n have "(of_char c :: nat) = n"
    by simp
  with n show "in_item (Range lo hi) c"
    by simp
qed

lemma lower_case: "in_item (Range CHR ''a'' CHR ''z'') c = (c \<in> set ''abcdefghijklmnopqrstuvwxyz'')"
  by (rule in_range_iff) code_simp

lemma upper_case: "in_item (Range CHR ''A'' CHR ''Z'') c = (c \<in> set ''ABCDEFGHIJKLMNOPQRSTUVWXYZ'')"
  by (rule in_range_iff) code_simp

lemma digits: "in_item (Range CHR ''0'' CHR ''9'') c = (c \<in> set ''0123456789'')"
  by (rule in_range_iff) code_simp

lemma key_chars_split:
  "key_chars = set ''abcdefghijklmnopqrstuvwxyz'' \<union> (set ''ABCDEFGHIJKLMNOPQRSTUVWXYZ'' \<union>
     (set ''0123456789'' \<union> set [CHR ''_'', CHR '':'', CHR ''.'', CHR ''-'']))"
proof -
  have "''abcdefghijklmnopqrstuvwxyzABCDEFGHIJKLMNOPQRSTUVWXYZ0123456789_:.-'' =
        ''abcdefghijklmnopqrstuvwxyz'' @ ''ABCDEFGHIJKLMNOPQRSTUVWXYZ'' @ ''0123456789'' @
        [CHR ''_'', CHR '':'', CHR ''.'', CHR ''-'']"
    by simp
  then show ?thesis
    unfolding key_chars_def by (simp only: set_append)
qed

lemma class_union:
  "(c \<in> A \<or> c \<in> B \<or> c \<in> D \<or> c = w \<or> c = x \<or> c = y \<or> c = z \<or> False) =
     (c \<in> A \<union> (B \<union> (D \<union> set [w, x, y, z])))"
  by auto

lemma key_class:
  "in_class [Range CHR ''a'' CHR ''z'', Range CHR ''A'' CHR ''Z'', Range CHR ''0'' CHR ''9'',
             Lit CHR ''_'', Lit CHR '':'', Lit CHR ''.'', Lit CHR ''-''] c = (c \<in> key_chars)"
  unfolding in_class_def list_ex_Cons_iff list_ex_Nil_iff lower_case upper_case digits
    key_chars_split
  unfolding in_item.simps
  by (rule class_union)

lemma validKeyRegex_iff: "MatchString validKeyRegex k = (k \<noteq> [] \<and> set k \<subseteq> key_chars)"
  unfolding validKeyRegex_def MatchString_plus key_class by auto


section \<open>Key validation\<close>

lemma scanParts_eq:
  "scanParts parts = (if [] \<in> set parts then Some (Bare ErrEmptyKeyPart) else None)"
  by (induction parts) auto

lemma validateKey_cases:
  "validateKey r k =
     (if length k < 5 \<or> 256 < length k then
        Some (Wrapping ErrInvalidKeyLength ''key length must be between 5 and 256 characters'')
      else if \<not> set k \<subseteq> key_chars then
        Some (Wrapping ErrInvalidKeyChars
          ''key must contain only alphanumeric characters, underscores, colons, dots, and hyphens'')
      else if \<not> HasPrefix k (prefix r @ separator r) then
        Some (Wrapping ErrInvalidKeyPrefix (''key must start with '' @ prefix r @ separator r))
      else if length (Split k (separator r)) < 2 \<or> Split k (separator r) ! 1 = [] then
        Some (Wrapping ErrInvalidKeySuffix
          ''key must have at least one non-empty part after the prefix'')
      else if [] \<in> set (Split k (separator r)) then Some (Bare ErrEmptyKeyPart)
      else None)"
proof -
  have "k \<noteq> []" if "\<not> length k < 5"
    using that by auto
  then show ?thesis
    unfolding validateKey_def MinKeyLength_def MaxKeyLength_def validKeyRegex_iff scanParts_eq Let_def
    by auto
qed

lemma validateKey_parts:
  assumes "validateKey r k = None"
  shows "2 \<le> length (Split k (separator r))"
  using assms unfolding validateKey_cases by (simp split: if_splits)

text \<open>
  C1. \<open>validateKey\<close> succeeds exactly on the keys of length 5 to 256 whose characters
  are all letters, digits, underscore, colon, dot or hyphen, that start with the
  configured prefix followed by the configured separator, whose split on the separator
  has at least two parts with a non-empty second part, and has no empty part.
\<close>

theorem validateKey_succeeds_iff:
  "validateKey r k = None \<longleftrightarrow>
     5 \<le> length k \<and> length k \<le> 256 \<and> set k \<subseteq> key_chars \<and>
     HasPrefix k (prefix r @ separator r) \<and>
     2 \<le> length (Split k (separator r)) \<and> Split k (separator r) ! 1 \<noteq> [] \<and>
     [] \<notin> set (Split k (separator r))"
  unfolding validateKey_cases by auto

theorem validateKey_succeeds_iff_witness:
  "validateKey \<lparr>prefix = ''app'', separator = '':''\<rparr> ''app:user:42'' = None \<and>
   validateKey \<lparr>prefix = ''app'', separator = '':''\<rparr> ''app:u'' = None \<and>
   validateKey \<lparr>prefix = ''app'', separator = '':''\<rparr> ''app:'' \<noteq> None"
  using validateKey_succeeds_iff [of "\<lparr>prefix = ''app'', separator = '':''\<rparr>" "''app:user:42''"]
    validateKey_succeeds_iff [of "\<lparr>prefix = ''app'', separator = '':''\<rparr>" "''app:u''"]
    validateKey_succeeds_iff [of "\<lparr>prefix = ''app'', separator = '':''\<rparr>" "''app:''"]
  by (simp add: key_chars_def HasPrefix_def Split.simps)

text \<open>
  C2. The error of \<open>validateKey\<close> is that of the first failing check, in the order
  length, characters, prefix, non-empty second part, empty-part scan; the five kinds
  are pairwise different, so \<open>errors.Is\<close> tells them apart.
\<close>

theorem validateKey_first_failing_check:
  "map_option kind (validateKey r k) =
     (if length k < 5 \<or> 256 < length k then Some ErrInvalidKeyLength
      else if \<not> set k \<subseteq> key_chars then Some ErrInvalidKeyChars
      else if \<not> HasPrefix k (prefix r @ separator r) then Some ErrInvalidKeyPrefix
      else if length (Split k (separator r)) < 2 \<or> Split k (separator r) ! 1 = []
        then Some ErrInvalidKeySuffix
      else if [] \<in> set (Split k (separator r)) then Some ErrEmptyKeyPart
      else None) \<and>
   distinct [ErrInvalidKeyLength, ErrInvalidKeyChars, ErrInvalidKeyPrefix, ErrInvalidKeySuffix,
             ErrEmptyKeyPart]"
  unfolding validateKey_cases by simp

theorem validateKey_first_failing_check_witness:
  "map_option kind (validateKey \<lparr>prefix = ''app'', separator = '':''\<rparr> ''app::42'') =
     Some ErrInvalidKeySuffix \<and>
   map_option kind (validateKey \<lparr>prefix = ''app'', separator = '':''\<rparr> ''app:a::b'') =
     Some ErrEmptyKeyPart \<and>
   map_option kind (validateKey \<lparr>prefix = ''app'', separator = '':''\<rparr> ''ap:/'') =
     Some ErrInvalidKeyLength \<and>
   map_option kind (validateKey \<lparr>prefix = ''app'', separator = '':''\<rparr> ''ap:/42'') =
     Some ErrInvalidKeyChars \<and>
   map_option kind (validateKey \<lparr>prefix = ''app'', separator = '':''\<rparr> ''ap::42'') =
     Some ErrInvalidKeyPrefix"
  using validateKey_first_failing_check [of "\<lparr>prefix = ''app'', separator = '':''\<rparr>" "''app::42''"]
    validateKey_first_failing_check [of "\<lparr>prefix = ''app'', separator = '':''\<rparr>" "''app:a::b''"]
    validateKey_first_failing_check [of "\<lparr>prefix = ''app'', separator = '':''\<rparr>" "''ap:/''"]
    validateKey_first_failing_check [of "\<lparr>prefix = ''app'', separator = '':''\<rparr>" "''ap:/42''"]
    validateKey_first_failing_check [of "\<lparr>prefix = ''app'', separator = '':''\<rparr>" "''ap::42''"]
  by (simp add: key_chars_def HasPrefix_def Split.simps)

text \<open>
  C10. A key that passes \<open>validateKey\<close> is always converted by \<open>keyToIdentifier\<close>:
  validation is its only failure. So the loop body of \<open>List\<close> and \<open>Search\<close> never
  takes the branch that skips a key because the conversion failed.
\<close>

theorem keyToIdentifier_total:
  "(validateKey r k = None \<longrightarrow> (\<exists>identifier. keyToIdentifier r k = Inr identifier)) \<and>
   loop_body r k \<noteq> SkipNotConvertible"
  unfolding keyToIdentifier_def parseKey_def loop_body_def
  by (cases "validateKey r k") simp_all

theorem keyToIdentifier_total_witness:
  "validateKey \<lparr>prefix = ''app'', separator = '':''\<rparr> ''app:user:42'' = None \<and>
   (\<exists>identifier. keyToIdentifier \<lparr>prefix = ''app'', separator = '':''\<rparr> ''app:user:42'' = Inr identifier) \<and>
   loop_body \<lparr>prefix = ''app'', separator = '':''\<rparr> ''app:user:42'' \<noteq> SkipNotConvertible"
proof -
  have valid: "validateKey \<lparr>prefix = ''app'', separator = '':''\<rparr> ''app:user:42'' = None"
    unfolding validateKey_cases by (simp add: key_chars_def HasPrefix_def Split.simps)
  with keyToIdentifier_total [of "\<lparr>prefix = ''app'', separator = '':''\<rparr>" "''app:user:42''"]
  show ?thesis by simp
qed


section \<open>Splitting and joining\<close>

lemma HasPrefix_append: "HasPrefix (p @ rest) p"
  by (simp add: HasPrefix_def)

lemma HasPrefix_decompose: "HasPrefix s p \<Longrightarrow> s = p @ drop (length p) s"
  unfolding HasPrefix_def by (metis append_take_drop_id)

lemma HasPrefix_extend: "HasPrefix s p \<Longrightarrow> HasPrefix (s @ t) p"
  unfolding HasPrefix_def by simp

lemma HasPrefix_head: "HasPrefix (c # cs) (x # xs) \<Longrightarrow> c = x"
  unfolding HasPrefix_def by simp

lemma Index_at_separator:
  assumes "sep \<noteq> []" and "set p \<inter> set sep = {}"
  shows "Index (p @ sep @ rest) sep = Some (length p)"
  using assms(2)
proof (induction p)
  case Nil
  from assms(1) obtain x xs where "sep = x # xs"
    by (cases sep) auto
  then show ?case
    using HasPrefix_append [of sep rest] by simp
next
  case (Cons c p)
  from assms(1) obtain x xs where sep: "sep = x # xs"
    by (cases sep) auto
  with Cons.prems have "c \<noteq> x"
    by auto
  then have "\<not> HasPrefix (c # p @ sep @ rest) sep"
    unfolding sep using HasPrefix_head by blast
  with Cons show ?case
    by simp
qed

lemma Index_absent:
  assumes "sep \<noteq> []" and "set p \<inter> set sep = {}"
  shows "Index p sep = None"
  using assms(2)
proof (induction p)
  case Nil
  with assms(1) show ?case by simp
next
  case (Cons c p)
  from assms(1) obtain x xs where sep: "sep = x # xs"
    by (cases sep) auto
  with Cons.prems have "c \<noteq> x"
    by auto
  then have "\<not> HasPrefix (c # p) sep"
    unfolding sep using HasPrefix_head by blast
  with Cons show ?case
    by simp
qed

lemma Split_first:
  assumes "sep \<noteq> []" and "set p \<inter> set sep = {}"
  shows "Split (p @ sep @ rest) sep = p # Split rest sep"
  using assms Index_at_separator [OF assms, of rest]
  by (subst Split.simps) simp

lemma Split_whole:
  assumes "sep \<noteq> []" and "set p \<inter> set sep = {}"
  shows "Split p sep = [p]"
  using assms Index_absent [OF assms]
  by (subst Split.simps) simp

lemma Split_Join:
  "sep \<noteq> [] \<Longrightarrow> parts \<noteq> [] \<Longrightarrow> \<forall>p\<in>set parts. set p \<inter> set sep = {} \<Longrightarrow>
     Split (Join parts sep) sep = parts"
proof (induction parts sep rule: Join.induct)
  case (1 sep)
  then show ?case by simp
next
  case (2 x sep)
  then show ?case by (simp add: Split_whole)
next
  case (3 x y ys sep)
  then show ?case by (simp add: Split_first)
qed

section \<open>The identifier codec\<close>

lemma createKey_valid: "createKey r parts = Inr key \<Longrightarrow> validateKey r key = None"
  unfolding createKey_def Let_def by (simp split: option.splits)

lemma createKey_Join: "createKey r parts = Inr key \<Longrightarrow> key = Join (prefix r # parts) (separator r)"
  unfolding createKey_def Let_def by (simp split: option.splits)

lemma identifierToKey_createKey:
  "identifierToKey r ident = Inr key \<Longrightarrow> createKey r (identifier_parts ident) = Inr key"
  unfolding identifierToKey_def
  by (cases ident) (simp_all split: option.splits)

lemma identifierToKey_valid: "identifierToKey r ident = Inr key \<Longrightarrow> validateKey r key = None"
  by (rule createKey_valid) (rule identifierToKey_createKey)

lemma identifierToKey_parts:
  "identifierToKey r ident = Inr key \<Longrightarrow> identifier_parts ident \<noteq> []"
  unfolding identifierToKey_def by (cases ident) simp_all

text \<open>A repository built by \<open>NewRedisRepository\<close> has a prefix and a separator.\<close>

lemma NewRedisRepository_nonempty:
  "prefix (NewRedisRepository config) \<noteq> [] \<and> separator (NewRedisRepository config) \<noteq> []"
  by (simp add: NewRedisRepository_def DefaultKeyPrefix_def DefaultKeySeparator_def)

text \<open>
  C3, as amended. If the separator is not empty and no character of it occurs in the
  configured prefix or in the parts of the identifier, then a key rendered by
  \<open>identifierToKey\<close> is converted back by \<open>keyToIdentifier\<close> to the same identifier.
  (That the parts satisfy the grammars follows from the rendering having succeeded.)
\<close>

theorem identifier_round_trip:
  assumes "separator r \<noteq> []"
    and "set (prefix r) \<inter> set (separator r) = {}"
    and "\<forall>p\<in>set (identifier_parts ident). set p \<inter> set (separator r) = {}"
    and "identifierToKey r ident = Inr key"
  shows "keyToIdentifier r key = Inr ident"
proof -
  have valid: "validateKey r key = None"
    using assms(4) by (rule identifierToKey_valid)
  have "key = Join (prefix r # identifier_parts ident) (separator r)"
    using assms(4) by (intro createKey_Join identifierToKey_createKey)
  moreover have "Split (Join (prefix r # identifier_parts ident) (separator r)) (separator r) =
      prefix r # identifier_parts ident"
    using assms(1-3) by (intro Split_Join) simp_all
  ultimately have "parseKey r key = Inr (identifier_parts ident)"
    using valid unfolding parseKey_def by simp
  then show ?thesis
    using identifierToKey_parts [OF assms(4)]
    unfolding keyToIdentifier_def by (cases ident) simp_all
qed


lemmas codec_defs =
  NewRedisRepository_def DefaultKeyPrefix_def DefaultKeySeparator_def
  identifierToKey_def validateEntityPrefix_def entityPrefixRegex_def in_class_def
  createKey_def keyToIdentifier_def parseKey_def fromKey_spec_def
  validateKey_cases key_chars_def HasPrefix_def Split.simps

theorem identifier_round_trip_witness:
  "identifierToKey (NewRedisRepository \<lparr>KeyPrefix = [], KeySeparator = []\<rparr>)
     (RedisIdentifier ''user'' ''42'') = Inr ''app:user:42'' \<and>
   keyToIdentifier (NewRedisRepository \<lparr>KeyPrefix = [], KeySeparator = []\<rparr>) ''app:user:42'' =
     Inr (RedisIdentifier ''user'' ''42'') \<and>
   identifierToKey (NewRedisRepository \<lparr>KeyPrefix = [], KeySeparator = []\<rparr>)
     (SimpleIdentifier ''x'') = Inr ''app:x'' \<and>
   keyToIdentifier (NewRedisRepository \<lparr>KeyPrefix = [], KeySeparator = []\<rparr>) ''app:x'' =
     Inr (SimpleIdentifier ''x'')"
proof -
  let ?r = "NewRedisRepository \<lparr>KeyPrefix = [], KeySeparator = []\<rparr>"
  have sep: "separator ?r \<noteq> []" and pre: "set (prefix ?r) \<inter> set (separator ?r) = {}"
    by (simp_all add: codec_defs)
  have c: "\<forall>p\<in>set (identifier_parts (RedisIdentifier ''user'' ''42'')). set p \<inter> set (separator ?r) = {}"
    and s: "\<forall>p\<in>set (identifier_parts (SimpleIdentifier ''x'')). set p \<inter> set (separator ?r) = {}"
    by (simp_all add: codec_defs)
  have kc: "identifierToKey ?r (RedisIdentifier ''user'' ''42'') = Inr ''app:user:42''"
    and ks: "identifierToKey ?r (SimpleIdentifier ''x'') = Inr ''app:x''"
    by (simp_all add: codec_defs)
  show ?thesis
    using identifier_round_trip [OF sep pre c kc] identifier_round_trip [OF sep pre s ks] kc ks
    by simp
qed

text \<open>
  C3 as stated fails when the configured prefix contains the separator: the key of the
  composite identifier \<open>{user, 42}\<close> under prefix \<open>a:b\<close> is \<open>a:b:user:42\<close>, and it is
  converted back to \<open>{b, user}\<close>.
\<close>

theorem identifier_round_trip_counterexample:
  "MatchString entityPrefixRegex ''user'' \<and>
   set ''user'' \<inter> set '':'' = {} \<and> set ''42'' \<inter> set '':'' = {} \<and>
   set ''user'' \<subseteq> key_chars \<and> set ''42'' \<subseteq> key_chars \<and>
   identifierToKey (NewRedisRepository \<lparr>KeyPrefix = ''a:b'', KeySeparator = '':''\<rparr>)
     (RedisIdentifier ''user'' ''42'') = Inr ''a:b:user:42'' \<and>
   keyToIdentifier (NewRedisRepository \<lparr>KeyPrefix = ''a:b'', KeySeparator = '':''\<rparr>) ''a:b:user:42'' =
     Inr (RedisIdentifier ''b'' ''user'') \<and>
   keyToIdentifier (NewRedisRepository \<lparr>KeyPrefix = ''a:b'', KeySeparator = '':''\<rparr>) ''a:b:user:42'' \<noteq>
     Inr (RedisIdentifier ''user'' ''42'')"
  by (simp add: codec_defs)

lemma validated_key_shape:
  assumes "validateKey r k = None"
  shows "\<exists>p q rest. Split k (separator r) = p # q # rest"
proof -
  from assms have "2 \<le> length (Split k (separator r))"
    by (rule validateKey_parts)
  then show ?thesis
  proof (cases "Split k (separator r)")
    case Nil
    with \<open>2 \<le> length (Split k (separator r))\<close> show ?thesis by simp
  next
    case outer: (Cons p ps)
    with \<open>2 \<le> length (Split k (separator r))\<close> show ?thesis
      by (cases ps) simp_all
  qed
qed

lemma validated_key_prefix:
  assumes "validateKey r k = None"
  shows "k = prefix r @ separator r @ drop (length (prefix r @ separator r)) k"
proof -
  from assms have "HasPrefix k (prefix r @ separator r)"
    unfolding validateKey_cases by (simp split: if_splits)
  from HasPrefix_decompose [OF this] show ?thesis
    by simp
qed

text \<open>
  C4, as amended. For a key that passes validation, \<open>keyToIdentifier\<close> looks at the
  parts of the whole key after the first one: there is at least one; if there is exactly
  one the result is the simple identifier of that part, otherwise it is the composite
  identifier of the first two and the others are dropped. When the separator is not
  empty and none of its characters occurs in the configured prefix, these are the parts
  left after stripping the prefix, and the result is the one the specification describes.
\<close>

theorem keyToIdentifier_by_shape:
  assumes "validateKey r k = None"
  shows "(\<exists>p rest. tl (Split k (separator r)) = p # rest \<and>
            keyToIdentifier r k =
              Inr (case rest of [] \<Rightarrow> SimpleIdentifier p | q # others \<Rightarrow> RedisIdentifier p q)) \<and>
         (separator r \<noteq> [] \<and> set (prefix r) \<inter> set (separator r) = {} \<longrightarrow>
            keyToIdentifier r k = fromKey_spec r k)"
proof
  from validated_key_shape [OF assms] obtain p q rest
    where split: "Split k (separator r) = p # q # rest"
    by blast
  have "keyToIdentifier r k =
          Inr (case rest of [] \<Rightarrow> SimpleIdentifier q | q' # others \<Rightarrow> RedisIdentifier q q')"
    using assms split unfolding keyToIdentifier_def parseKey_def
    by (cases rest) simp_all
  with split show "\<exists>p rest. tl (Split k (separator r)) = p # rest \<and>
      keyToIdentifier r k =
        Inr (case rest of [] \<Rightarrow> SimpleIdentifier p | q # others \<Rightarrow> RedisIdentifier p q)"
    by simp
next
  show "separator r \<noteq> [] \<and> set (prefix r) \<inter> set (separator r) = {} \<longrightarrow>
      keyToIdentifier r k = fromKey_spec r k"
  proof
    assume cfg: "separator r \<noteq> [] \<and> set (prefix r) \<inter> set (separator r) = {}"
    let ?rest = "drop (length (prefix r @ separator r)) k"
    have "Split (prefix r @ separator r @ ?rest) (separator r) = prefix r # Split ?rest (separator r)"
      using cfg by (intro Split_first) simp_all
    then have "tl (Split k (separator r)) = Split ?rest (separator r)"
      using validated_key_prefix [OF assms] by simp
    then show "keyToIdentifier r k = fromKey_spec r k"
      using assms unfolding keyToIdentifier_def parseKey_def fromKey_spec_def Let_def
      by simp
  qed
qed

theorem keyToIdentifier_by_shape_witness:
  "validateKey \<lparr>prefix = ''app'', separator = '':''\<rparr> ''app:user:42:x'' = None \<and>
   keyToIdentifier \<lparr>prefix = ''app'', separator = '':''\<rparr> ''app:user:42:x'' =
     Inr (RedisIdentifier ''user'' ''42'') \<and>
   fromKey_spec \<lparr>prefix = ''app'', separator = '':''\<rparr> ''app:user:42:x'' =
     Inr (RedisIdentifier ''user'' ''42'')"
proof -
  let ?r = "\<lparr>prefix = ''app'', separator = '':''\<rparr>"
  have valid: "validateKey ?r ''app:user:42:x'' = None"
    by (simp add: codec_defs)
  have split: "tl (Split ''app:user:42:x'' (separator ?r)) = [''user'', ''42'', ''x'']"
    by (simp add: Split.simps HasPrefix_def)
  have cfg: "separator ?r \<noteq> [] \<and> set (prefix ?r) \<inter> set (separator ?r) = {}"
    by simp
  from keyToIdentifier_by_shape [OF valid] split
  have decoded: "keyToIdentifier ?r ''app:user:42:x'' = Inr (RedisIdentifier ''user'' ''42'')"
    by simp
  from keyToIdentifier_by_shape [OF valid] cfg
  have "fromKey_spec ?r ''app:user:42:x'' = keyToIdentifier ?r ''app:user:42:x''"
    by simp
  with decoded valid show ?thesis
    by simp
qed

text \<open>
  C4 as stated fails when the configured prefix contains the separator: stripping the
  prefix \<open>my:app\<close> and its separator from \<open>my:app:x1\<close> leaves the single part \<open>x1\<close>,
  but the key is converted to the composite identifier \<open>{app, x1}\<close>.
\<close>

theorem keyToIdentifier_by_shape_counterexample:
  "validateKey \<lparr>prefix = ''my:app'', separator = '':''\<rparr> ''my:app:x1'' = None \<and>
   Split (drop (length (''my:app'' @ '':'')) ''my:app:x1'') '':'' = [''x1''] \<and>
   fromKey_spec \<lparr>prefix = ''my:app'', separator = '':''\<rparr> ''my:app:x1'' = Inr (SimpleIdentifier ''x1'') \<and>
   keyToIdentifier \<lparr>prefix = ''my:app'', separator = '':''\<rparr> ''my:app:x1'' =
     Inr (RedisIdentifier ''app'' ''x1'') \<and>
   keyToIdentifier \<lparr>prefix = ''my:app'', separator = '':''\<rparr> ''my:app:x1'' \<noteq>
     Inr (SimpleIdentifier ''x1'')"
  by (simp add: codec_defs)


section \<open>Lock keys\<close>

lemma Split_append_char: "Split (a @ c # b) [c] = Split a [c] @ Split b [c]"
proof (induction a rule: length_induct)
  case (1 a)
  show ?case
  proof (cases "c \<in> set a")
    case False
    then have "set a \<inter> set [c] = {}"
      by simp
    then have "Split a [c] = [a]" and "Split (a @ c # b) [c] = a # Split b [c]"
      using Split_whole [of "[c]" a] Split_first [of "[c]" a b] by simp_all
    then show ?thesis
      by simp
  next
    case True
    then obtain p d where a: "a = p @ c # d" and "c \<notin> set p"
      by (meson split_list_first)
    then have disj: "set p \<inter> set [c] = {}"
      by simp
    have "Split a [c] = p # Split d [c]"
      using Split_first [of "[c]" p d] disj a by simp
    moreover have "Split (a @ c # b) [c] = p # Split (d @ c # b) [c]"
      using Split_first [of "[c]" p "d @ c # b"] disj a by simp
    moreover have "Split (d @ c # b) [c] = Split d [c] @ Split b [c]"
      using 1 a by simp
    ultimately show ?thesis
      by simp
  qed
qed

lemma lockKey_valid_iff:
  assumes valid: "validateKey r key = None"
    and sep: "separator r = [c]"
    and lock: "c \<notin> set KeyPartLock"
  shows "validateKey r (lockKey r key) = None \<longleftrightarrow> length key \<le> 251"
proof -
  let ?parts = "Split key [c]"
  from valid have len: "5 \<le> length key"
    and chars: "set key \<subseteq> key_chars"
    and pre: "HasPrefix key (prefix r @ [c])"
    and parts: "2 \<le> length ?parts" "?parts ! 1 \<noteq> []" "[] \<notin> set ?parts"
    unfolding validateKey_cases sep by (simp_all split: if_splits)
  have "key = (prefix r @ [c]) @ drop (length (prefix r @ [c])) key"
    using pre by (rule HasPrefix_decompose)
  then have "c \<in> set key"
    by (metis append_Cons append_assoc in_set_conv_decomp)
  with chars have c: "c \<in> key_chars"
    by auto
  have word: "set KeyPartLock \<subseteq> key_chars"
    by (simp add: KeyPartLock_def key_chars_def)
  have "set KeyPartLock \<inter> set [c] = {}"
    using lock by simp
  then have "Split KeyPartLock [c] = [KeyPartLock]"
    by (simp add: Split_whole)
  then have split: "Split (key @ c # KeyPartLock) [c] = ?parts @ [KeyPartLock]"
    by (simp add: Split_append_char)
  have second: "(?parts @ [KeyPartLock]) ! 1 = ?parts ! 1"
    using parts(1) by (simp add: nth_append)
  have "validateKey r (key @ c # KeyPartLock) = None \<longleftrightarrow> length key \<le> 251"
    unfolding validateKey_cases sep split second
    using len chars c word pre parts HasPrefix_extend [OF pre, of "c # KeyPartLock"]
    by (auto simp: KeyPartLock_def)
  then show ?thesis
    by (simp add: lockKey_def sep)
qed

lemma loop_body_Append: "loop_body r k = Append ident \<Longrightarrow> validateKey r k = None"
  unfolding loop_body_def by (simp split: option.splits)

text \<open>
  C9, as amended. Every key that \<open>identifierToKey\<close> returns, and every enumerated key
  that \<open>List\<close> or \<open>Search\<close> decodes, passes \<open>validateKey\<close>. The lock key is handed to
  the store without validation; when the separator is a single character that does not
  occur in \<open>lock\<close>, the lock key of a valid key passes \<open>validateKey\<close> exactly when the
  key has at most 251 characters.
\<close>

theorem produced_keys_valid:
  "(identifierToKey r ident = Inr key \<longrightarrow> validateKey r key = None) \<and>
   (loop_body r k = Append ident' \<longrightarrow> validateKey r k = None) \<and>
   (validateKey r key' = None \<and> separator r = [c] \<and> c \<notin> set KeyPartLock \<longrightarrow>
      (validateKey r (lockKey r key') = None \<longleftrightarrow> length key' \<le> 251))"
  using identifierToKey_valid loop_body_Append lockKey_valid_iff by blast

theorem produced_keys_valid_witness:
  "identifierToKey \<lparr>prefix = ''app'', separator = '':''\<rparr> (RedisIdentifier ''user'' ''42'') =
     Inr ''app:user:42'' \<and>
   validateKey \<lparr>prefix = ''app'', separator = '':''\<rparr> ''app:user:42'' = None \<and>
   loop_body \<lparr>prefix = ''app'', separator = '':''\<rparr> ''app:x'' = Append (SimpleIdentifier ''x'') \<and>
   validateKey \<lparr>prefix = ''app'', separator = '':''\<rparr> ''app:x'' = None \<and>
   validateKey \<lparr>prefix = ''app'', separator = '':''\<rparr> ''app:user:42:lock'' = None"
proof -
  let ?r = "\<lparr>prefix = ''app'', separator = '':''\<rparr>"
  have a: "identifierToKey ?r (RedisIdentifier ''user'' ''42'') = Inr ''app:user:42''"
    by (simp add: codec_defs)
  have b: "loop_body ?r ''app:x'' = Append (SimpleIdentifier ''x'')"
    by (simp add: loop_body_def codec_defs)
  have c: "separator ?r = [CHR '':''] \<and> CHR '':'' \<notin> set KeyPartLock"
    by (simp add: KeyPartLock_def)
  have d: "lockKey ?r ''app:user:42'' = ''app:user:42:lock''"
    by (simp add: lockKey_def KeyPartLock_def)
  from produced_keys_valid [of ?r "RedisIdentifier ''user'' ''42''" "''app:user:42''"
      "''app:x''" "SimpleIdentifier ''x''" "''app:user:42''" "CHR '':''"] a b c d
  show ?thesis
    by simp
qed

text \<open>
  The condition on the separator is needed: with the separator \<open>k\<close> the lock key of
  the valid key \<open>appkfoo\<close> ends in the separator and has an empty last part.
\<close>

lemma lock_key_separator_in_word:
  "validateKey \<lparr>prefix = ''app'', separator = ''k''\<rparr> ''appkfoo'' = None \<and>
   validateKey \<lparr>prefix = ''app'', separator = ''k''\<rparr>
     (lockKey \<lparr>prefix = ''app'', separator = ''k''\<rparr> ''appkfoo'') = Some (Bare ErrEmptyKeyPart)"
  by (simp add: codec_defs lockKey_def KeyPartLock_def)

text \<open>
  C9 as stated fails for long keys: the simple identifier of 252 letters has a valid
  key of 256 characters, and its lock key, which \<open>AcquireLock\<close> sends to the store,
  has 261 and is rejected by \<open>validateKey\<close>.
\<close>

theorem lock_key_counterexample:
  "identifierToKey \<lparr>prefix = ''app'', separator = '':''\<rparr> (SimpleIdentifier (replicate 252 CHR ''a'')) =
     Inr (''app:'' @ replicate 252 CHR ''a'') \<and>
   lockKey \<lparr>prefix = ''app'', separator = '':''\<rparr> (''app:'' @ replicate 252 CHR ''a'') =
     ''app:'' @ replicate 252 CHR ''a'' @ '':lock'' \<and>
   map_option kind (validateKey \<lparr>prefix = ''app'', separator = '':''\<rparr>
     (''app:'' @ replicate 252 CHR ''a'' @ '':lock'')) = Some ErrInvalidKeyLength \<and>
   AcquireLock \<lparr>prefix = ''app'', separator = '':''\<rparr>
     (logged (failing_client (ClientFailure ''timeout'') :: (unit, unit) client))
     (SimpleIdentifier (replicate 252 CHR ''a'')) 30 ((), []) =
     (Inl (operation_failed (ClientFailure ''timeout'')),
      ((), [CmdSetNX (''app:'' @ replicate 252 CHR ''a'' @ '':lock'') 1 30]))"
proof -
  let ?r = "\<lparr>prefix = ''app'', separator = '':''\<rparr>"
  let ?a = "replicate 252 CHR ''a''"
  have "Split (''app'' @ '':'' @ ?a) '':'' = ''app'' # Split ?a '':''"
    by (rule Split_first) simp_all
  moreover have "Split ?a '':'' = [?a]"
    by (rule Split_whole) simp_all
  ultimately have split: "Split (''app:'' @ ?a) '':'' = [''app'', ?a]"
    by simp
  have "validateKey ?r (''app:'' @ ?a) = None"
    unfolding validateKey_cases using split
    by (simp add: key_chars_def HasPrefix_def)
  then have key: "identifierToKey ?r (SimpleIdentifier ?a) = Inr (''app:'' @ ?a)"
    by (simp add: identifierToKey_def createKey_def)
  have lk: "lockKey ?r (''app:'' @ ?a) = ''app:'' @ ?a @ '':lock''"
    by (simp add: lockKey_def KeyPartLock_def)
  have bad: "map_option kind (validateKey ?r (''app:'' @ ?a @ '':lock'')) = Some ErrInvalidKeyLength"
    unfolding validateKey_cases by simp
  have acq: "AcquireLock ?r (logged (failing_client (ClientFailure ''timeout'') :: (unit, unit) client))
      (SimpleIdentifier ?a) 30 ((), []) =
      (Inl (operation_failed (ClientFailure ''timeout'')),
       ((), [CmdSetNX (''app:'' @ ?a @ '':lock'') 1 30]))"
    unfolding AcquireLock_def key
    by (simp add: lockKey_def KeyPartLock_def logged_def failing_client_def record_call_def)
  show ?thesis
    by (rule conjI key lk bad acq)+
qed


section \<open>Enumeration: List and Search\<close>






lemmas client_defs = store_client_def failing_client_def logged_def record_call_def


text \<open>
  C8. A search reply whose first element is the total count 0 makes \<open>Search\<close> return
  the empty sequence and no error.
\<close>

theorem Search_no_results:
  assumes "client_Do c (search_args r query offset limit sortBy sortDir) s =
             (Inr (RArray (RInt 0 # items)), s')"
  shows "Search r c max_cap query offset limit sortBy sortDir s = (Returns (Inr []), s')"
  using assms unfolding Search_def by simp

theorem Search_no_results_witness:
  "Search \<lparr>prefix = ''app'', separator = '':''\<rparr>
     (store_client id [] (RArray [RInt 0]) :: (string \<rightharpoonup> string, string) client)
     1000 ''query'' 0 10 ''name'' ''ASC'' Map.empty = (Returns (Inr []), Map.empty)"
proof -
  let ?c = "store_client id [] (RArray [RInt 0]) :: (string \<rightharpoonup> string, string) client"
  have "client_Do ?c (search_args \<lparr>prefix = ''app'', separator = '':''\<rparr> ''query'' 0 10 ''name'' ''ASC'')
      Map.empty = (Inr (RArray (RInt 0 # [])), Map.empty)"
    by (simp add: client_defs)
  then show ?thesis
    by (rule Search_no_results)
qed


section \<open>Errors of the store\<close>




text \<open>
  The last call of \<open>Create\<close> and \<open>Update\<close> is returned as \<open>Publish\<close> returns its own:
  an error of \<open>JSONSet\<close> reaches the caller as it is.
\<close>

lemma Create_set_error:
  assumes "identifierToKey r ident = Inr key"
    and "client_Exists c key s = (Inr 0, s')"
    and "client_JSONSet c key ''$'' v s' = (Some e, s'')"
  shows "Create r c ident v s = (Some (FromClient e), s'')"
  using assms unfolding Create_def by simp

lemma Update_set_error:
  assumes "identifierToKey r ident = Inr key"
    and "client_Exists c key s = (Inr 1, s')"
    and "client_JSONSet c key ''$'' v s' = (Some e, s'')"
  shows "Update r c ident v s = (Some (FromClient e), s'')"
  using assms unfolding Update_def by simp

section \<open>Create on an existing key\<close>

text \<open>
  C6. If the identifier is valid and the store reports that its key exists, \<open>Create\<close>
  returns \<open>ErrAlreadyExists\<close>; the existence check is the only command it sends, so
  the store is left as that check left it, and the document store keeps its map, with
  the value under the key, unchanged.
\<close>

theorem Create_existing_key:
  "(identifierToKey r ident = Inr key \<and> client_Exists c key s = (Inr 1, s') \<longrightarrow>
      Create r c ident v s = (Some (Sentinel ErrAlreadyExists), s') \<and>
      Create r (logged c) ident v (s, trace) =
        (Some (Sentinel ErrAlreadyExists), (s', trace @ [CmdExists key]))) \<and>
   (identifierToKey r ident = Inr key \<and> documents key = Some old \<longrightarrow>
      Create r (store_client encode keys found) ident v documents =
        (Some (Sentinel ErrAlreadyExists), documents))"
  unfolding Create_def by (simp add: client_defs)

theorem Create_existing_key_witness:
  "Create \<lparr>prefix = ''app'', separator = '':''\<rparr> (logged (store_client id [] ROther))
     (RedisIdentifier ''user'' ''42'') ''new'' ([''app:user:42'' \<mapsto> ''old''], []) =
     (Some (Sentinel ErrAlreadyExists), ([''app:user:42'' \<mapsto> ''old''], [CmdExists ''app:user:42''])) \<and>
   Create \<lparr>prefix = ''app'', separator = '':''\<rparr> (store_client id [] ROther)
     (RedisIdentifier ''user'' ''42'') ''new'' [''app:user:42'' \<mapsto> ''old''] =
     (Some (Sentinel ErrAlreadyExists), [''app:user:42'' \<mapsto> ''old''])"
proof -
  let ?r = "\<lparr>prefix = ''app'', separator = '':''\<rparr>"
  let ?c = "store_client id [] ROther :: (string \<rightharpoonup> string, string) client"
  let ?m = "[''app:user:42'' \<mapsto> ''old'']"
  have key: "identifierToKey ?r (RedisIdentifier ''user'' ''42'') = Inr ''app:user:42''"
    by (simp add: codec_defs)
  have present: "client_Exists ?c ''app:user:42'' ?m = (Inr 1, ?m)" and old: "?m ''app:user:42'' = Some ''old''"
    by (simp_all add: store_client_def)
  from Create_existing_key [where r = ?r and c = ?c and s = ?m and s' = ?m and key = "''app:user:42''"
      and ident = "RedisIdentifier ''user'' ''42''" and v = "''new''" and trace = "[]"
      and documents = ?m and old = "''old''" and encode = id and keys = "[]" and found = ROther]
    key present old
  show ?thesis
    by simp
qed

end
